theory Spec2Isabelle
  imports Main
begin

section \<open>The document converter \<^verbatim>\<open>docx_to_md.py\<close>\<close>

text \<open>
  The converter reads a document tree (paragraphs with an optional style, tables as grids of
  cells) and produces one string of markup. The document reader is an external library: the
  embedding starts from the tree it returns.

  A Python string is a sequence of code points. The embedding takes the type
  \<^typ>\<open>string\<close>, reading each \<^typ>\<open>char\<close> as one code point below 256 (ASCII and
  Latin-1), and gives \<^verbatim>\<open>str.lower\<close>, \<^verbatim>\<open>str.strip\<close> and \<^verbatim>\<open>str.isspace\<close> the
  meaning Python gives them on these code points. Texts with code points from 256 on are
  outside the embedding.
\<close>

subsection \<open>Python's string operations\<close>

text \<open>
  \<^verbatim>\<open>str.isspace\<close> of one code point below 256: tab to carriage return (9..13), the four
  separators 28..31, the space (32), next line (133) and the no-break space (160).
\<close>

definition isspace :: "char \<Rightarrow> bool" where
  "isspace c =
     (let n = (of_char c :: nat)
      in (9 \<le> n \<and> n \<le> 13) \<or> (28 \<le> n \<and> n \<le> 32) \<or> n = 133 \<or> n = 160)"

text \<open>\<^verbatim>\<open>s.strip()\<close>: the whitespace at both ends is removed.\<close>

definition strip :: "string \<Rightarrow> string" where
  "strip s = rev (dropWhile isspace (rev (dropWhile isspace s)))"

text \<open>
  \<^verbatim>\<open>str.lower\<close> of one code point below 256: the letters A..Z (65..90) and the Latin-1
  capitals 192..214 and 216..222 move up by 32, every other code point stays.
\<close>

definition lower_char :: "char \<Rightarrow> char" where
  "lower_char c =
     (let n = (of_char c :: nat)
      in if (65 \<le> n \<and> n \<le> 90) \<or> (192 \<le> n \<and> n \<le> 214) \<or> (216 \<le> n \<and> n \<le> 222)
         then char_of (n + 32) else c)"

definition lower :: "string \<Rightarrow> string" where
  "lower s = map lower_char s"

text \<open>\<^verbatim>\<open>s.startswith(p)\<close>.\<close>

definition startswith :: "string \<Rightarrow> string \<Rightarrow> bool" where
  "startswith s p = (take (length p) s = p)"

text \<open>\<^verbatim>\<open>sub in s\<close>: \<open>sub\<close> occurs in \<open>s\<close> as a contiguous piece.\<close>

fun contains :: "string \<Rightarrow> string \<Rightarrow> bool" where
  "contains [] sub = (sub = [])"
| "contains (c # cs) sub = (startswith (c # cs) sub \<or> contains cs sub)"

text \<open>\<^verbatim>\<open>s.replace("\n", " ")\<close>: every line feed becomes one space.\<close>

definition replace_nl :: "string \<Rightarrow> string" where
  "replace_nl s = map (\<lambda>c. if c = CHR 0x0A then CHR '' '' else c) s"

text \<open>\<^verbatim>\<open>sep.join(xs)\<close>.\<close>

fun join :: "string \<Rightarrow> string list \<Rightarrow> string" where
  "join sep [] = []"
| "join sep [x] = x"
| "join sep (x # y # ys) = x @ sep @ join sep (y # ys)"

text \<open>
  \<^verbatim>\<open>xs.insert(i, x)\<close>: a negative index counts from the end, and an index beyond either end
  is moved to that end.
\<close>

definition list_insert :: "int \<Rightarrow> 'a \<Rightarrow> 'a list \<Rightarrow> 'a list" where
  "list_insert i x xs =
     (let n = int (length xs);
          j = (if i < 0 then max (i + n) 0 else min i n)
      in take (nat j) xs @ [x] @ drop (nat j) xs)"

text \<open>The decimal text of the loop variable of \<^verbatim>\<open>range(1, 10)\<close>: one digit.\<close>

definition digit_str :: "nat \<Rightarrow> string" where
  "digit_str i = [char_of (48 + i)]"

subsection \<open>The document tree\<close>

text \<open>
  \<^verbatim>\<open>paragraph.style\<close> may be \<^verbatim>\<open>None\<close>, and so may \<^verbatim>\<open>style.name\<close>;
  \<^verbatim>\<open>paragraph.text\<close> is a string. A table is the list of its rows, a row the list of its
  cells, and a cell is given by its text.
\<close>

record style =
  s_name :: "string option"

record para =
  p_style :: "style option"
  p_text :: string

type_synonym cell = string
type_synonym row = "cell list"
type_synonym table = "row list"

record document =
  paragraphs :: "para list"
  tables :: "table list"

subsection \<open>The style classifier\<close>

definition get_style_name :: "para \<Rightarrow> string option" where
  "get_style_name paragraph =
     (case p_style paragraph of
        None \<Rightarrow> None
      | Some st \<Rightarrow>
          (let name = lower (case s_name st of None \<Rightarrow> [] | Some n \<Rightarrow> n)
           in if contains name ''heading'' \<or> startswith name ''title''
              then Some name else Some ''normal''))"

text \<open>
  The loop \<^verbatim>\<open>for i in range(1, 10)\<close> of \<^verbatim>\<open>heading_level\<close>: it returns at the first
  \<open>i\<close> whose text \<^verbatim>\<open>heading i\<close> or \<^verbatim>\<open>headingi\<close> occurs in the name, and \<open>None\<close> stands
  for the loop running to its end.
\<close>

fun heading_loop :: "nat list \<Rightarrow> string \<Rightarrow> nat option" where
  "heading_loop [] name = None"
| "heading_loop (i # rest) name =
     (if contains name (''heading '' @ digit_str i) \<or> contains name (''heading'' @ digit_str i)
      then Some (min i 6)
      else heading_loop rest name)"

definition heading_level :: "string option \<Rightarrow> nat" where
  "heading_level style_name =
     (case style_name of
        None \<Rightarrow> 0
      | Some s \<Rightarrow>
          if s = [] then 0
          else (let name = lower s
                in if contains name ''title'' then 1
                   else (case heading_loop [1..<10] name of
                           Some l \<Rightarrow> l
                         | None \<Rightarrow> if contains name ''heading'' then 2 else 0)))"

text \<open>
  The classifier of a paragraph, as \<^verbatim>\<open>paragraph_to_md\<close> computes it: the heading level
  of the extracted style name.
\<close>

definition classify :: "para \<Rightarrow> nat" where
  "classify paragraph = heading_level (get_style_name paragraph)"

text \<open>A paragraph whose style carries the label \<open>l\<close>.\<close>

definition labelled :: "string \<Rightarrow> string \<Rightarrow> para" where
  "labelled l t = \<lparr>p_style = Some \<lparr>s_name = Some l\<rparr>, p_text = t\<rparr>"

subsection \<open>The renderer\<close>

definition paragraph_to_md :: "para \<Rightarrow> string" where
  "paragraph_to_md paragraph =
     (let text = strip (p_text paragraph)
      in if text = [] then []
         else (let style_name = get_style_name paragraph;
                   level = heading_level style_name
               in if level \<ge> 1 then replicate level CHR ''#'' @ '' '' @ text
                  else text))"

text \<open>The first loop of \<^verbatim>\<open>docx_to_md\<close>, over the paragraphs, with the list \<open>lines\<close> as state.\<close>

fun para_loop :: "para list \<Rightarrow> string list \<Rightarrow> string list" where
  "para_loop [] lines = lines"
| "para_loop (para # rest) lines =
     (let line = paragraph_to_md para
      in para_loop rest (if line \<noteq> [] then lines @ [line] else lines))"

text \<open>The inner loop over the rows of one table, with the list \<open>rows\<close> as state.\<close>

fun row_loop :: "row list \<Rightarrow> string list \<Rightarrow> string list" where
  "row_loop [] rows = rows"
| "row_loop (r # rest) rows =
     (let cells = map (\<lambda>c. replace_nl (strip c)) r
      in row_loop rest (rows @ [''| '' @ join '' | '' cells @ '' |'']))"

text \<open>
  The body of the loop over the tables. \<^verbatim>\<open>table.rows[0]\<close> is read only when \<open>rows\<close> has
  two entries or more, and \<open>rows\<close> has one entry for each row of the table, so the index is
  in range there.
\<close>

definition table_step :: "table \<Rightarrow> string list \<Rightarrow> string list" where
  "table_step tbl lines =
     (let rows = row_loop tbl []
      in if rows \<noteq> [] then
           (let lines1 = lines @ [[]];
                lines2 = lines1 @ rows;
                lines3 = (if length rows \<ge> 2
                          then (let num_cols = length (tbl ! 0)
                                in list_insert (- int (length rows) + 1)
                                     (''|'' @ concat (replicate num_cols '' --- |'')) lines2)
                          else lines2)
            in lines3 @ [[]])
         else lines)"

fun table_loop :: "table list \<Rightarrow> string list \<Rightarrow> string list" where
  "table_loop [] lines = lines"
| "table_loop (tbl # rest) lines = table_loop rest (table_step tbl lines)"

definition docx_to_md :: "document \<Rightarrow> string" where
  "docx_to_md doc =
     join [CHR 0x0A, CHR 0x0A] (table_loop (tables doc) (para_loop (paragraphs doc) []))"

subsection \<open>The specification's reading of the output\<close>

text \<open>
  The condition of the loop of \<^verbatim>\<open>heading_level\<close> at the number \<open>i\<close>: the name holds
  \<^verbatim>\<open>heading i\<close> (one space) or \<^verbatim>\<open>headingi\<close> (no space).
\<close>

definition numbered :: "string \<Rightarrow> nat \<Rightarrow> bool" where
  "numbered name i =
     (contains name (''heading '' @ digit_str i) \<or> contains name (''heading'' @ digit_str i))"

text \<open>
  The line of one table row, as the body of the loop over the rows builds it, and the
  separator line of \<open>n\<close> columns, as \<^verbatim>\<open>docx_to_md\<close> builds it.
\<close>

definition row_line :: "row \<Rightarrow> string" where
  "row_line r = ''| '' @ join '' | '' (map (\<lambda>c. replace_nl (strip c)) r) @ '' |''"

definition separator :: "nat \<Rightarrow> string" where
  "separator n = ''|'' @ concat (replicate n '' --- |'')"

text \<open>
  The lines that one table contributes according to the specification: nothing for a table
  without rows; otherwise a blank entry, the row lines, with the separator after the first
  of them when there are two rows or more, and a blank entry. The lemma
  \<open>table_step_eq\<close> below compares it with the code.
\<close>

definition table_block :: "table \<Rightarrow> string list" where
  "table_block tbl =
     (case tbl of
        [] \<Rightarrow> []
      | [r] \<Rightarrow> [[], row_line r, []]
      | r # rest \<Rightarrow> [[], row_line r, separator (length r)] @ map row_line rest @ [[]])"

text \<open>
  The lines that one paragraph contributes according to the specification: none when its
  trimmed text is empty, a heading line when its level is at least 1, the trimmed text
  otherwise. The lemma \<open>para_loop_eq\<close> below compares it with the code.
\<close>

definition para_lines :: "para \<Rightarrow> string list" where
  "para_lines p =
     (let t = strip (p_text p)
      in if t = [] then []
         else if 1 \<le> classify p then [replicate (classify p) CHR ''#'' @ '' '' @ t]
         else [t])"

section \<open>Properties of the string operations\<close>

lemma startswith_iff: "startswith s p \<longleftrightarrow> (\<exists>q. s = p @ q)"
  unfolding startswith_def
  by (metis append_eq_conv_conj append_take_drop_id)

lemma contains_iff: "contains s sub \<longleftrightarrow> (\<exists>p q. s = p @ sub @ q)"
proof (induction s)
  case Nil
  show ?case by simp
next
  case (Cons c cs)
  show ?case
  proof
    assume "contains (c # cs) sub"
    then consider "startswith (c # cs) sub" | "contains cs sub" by auto
    then show "\<exists>p q. c # cs = p @ sub @ q"
    proof cases
      case 1
      then obtain q where "c # cs = sub @ q" by (auto simp: startswith_iff)
      then have "c # cs = [] @ sub @ q" by simp
      then show ?thesis by blast
    next
      case 2
      then obtain p q where "cs = p @ sub @ q" using Cons.IH by blast
      then have "c # cs = (c # p) @ sub @ q" by simp
      then show ?thesis by blast
    qed
  next
    assume "\<exists>p q. c # cs = p @ sub @ q"
    then obtain p q where pq: "c # cs = p @ sub @ q" by blast
    show "contains (c # cs) sub"
    proof (cases p)
      case Nil
      with pq have "startswith (c # cs) sub" by (auto simp: startswith_iff)
      then show ?thesis by simp
    next
      case (Cons a p')
      with pq have "cs = p' @ sub @ q" by simp
      then have "contains cs sub" using Cons.IH by blast
      then show ?thesis by simp
    qed
  qed
qed

lemma contains_prefix: "contains s (a @ b) \<Longrightarrow> contains s a"
  unfolding contains_iff by (metis append.assoc)

lemma startswith_contains: "startswith s p \<Longrightarrow> contains s p"
  unfolding contains_iff startswith_iff by (metis append_Nil)

lemma contains_nonempty: "contains s sub \<Longrightarrow> sub \<noteq> [] \<Longrightarrow> s \<noteq> []"
  by (cases s) auto

lemma lower_char_idem: "lower_char (lower_char c) = lower_char c"
  by (auto simp: lower_char_def Let_def)

lemma lower_idem: "lower (lower s) = lower s"
  by (simp add: lower_def lower_char_idem)

lemma lower_Nil_iff: "lower s = [] \<longleftrightarrow> s = []"
  by (simp add: lower_def)

lemma rev_dropWhile_split:
  "xs = rev (dropWhile P (rev xs)) @ rev (takeWhile P (rev xs))"
  by (metis rev_append rev_rev_ident takeWhile_dropWhile_id)

lemma strip_split:
  "dropWhile isspace c = strip c @ rev (takeWhile isspace (rev (dropWhile isspace c)))"
  unfolding strip_def by (rule rev_dropWhile_split)

lemma strip_decomp:
  "\<exists>pre suf. c = pre @ strip c @ suf \<and> list_all isspace pre \<and> list_all isspace suf"
proof -
  let ?suf = "rev (takeWhile isspace (rev (dropWhile isspace c)))"
  have "c = takeWhile isspace c @ dropWhile isspace c" by simp
  then have c: "c = takeWhile isspace c @ strip c @ ?suf"
    using strip_split [of c] by simp
  have p: "list_all isspace (takeWhile isspace c)"
    unfolding list_all_iff by (meson set_takeWhileD)
  have "list_all isspace (takeWhile isspace (rev (dropWhile isspace c)))"
    unfolding list_all_iff by (meson set_takeWhileD)
  then have s: "list_all isspace ?suf" by (simp add: list_all_iff)
  show ?thesis using c p s by blast
qed

lemma strip_last: "strip c \<noteq> [] \<Longrightarrow> \<not> isspace (last (strip c))"
  unfolding strip_def by (simp add: last_rev hd_dropWhile)

lemma strip_hd: "strip c \<noteq> [] \<Longrightarrow> \<not> isspace (hd (strip c))"
proof -
  assume ne: "strip c \<noteq> []"
  have "hd (dropWhile isspace c) = hd (strip c)"
    using strip_split [of c] ne by (metis hd_append2)
  moreover have "dropWhile isspace c \<noteq> []"
    using strip_split [of c] ne by (metis append_is_Nil_conv)
  then have "\<not> isspace (hd (dropWhile isspace c))" by (rule hd_dropWhile)
  ultimately show ?thesis by simp
qed

lemma strip_whitespace_only: "list_all isspace s \<Longrightarrow> strip s = []"
proof -
  assume "list_all isspace s"
  then have "\<forall>x\<in>set s. isspace x" by (simp add: list_all_iff)
  then show ?thesis by (simp add: strip_def) (meson set_dropWhileD)
qed

lemma replace_nl_nth:
  "i < length s \<Longrightarrow> replace_nl s ! i = (if s ! i = CHR 0x0A then CHR '' '' else s ! i)"
  by (simp add: replace_nl_def)

lemma replace_nl_length: "length (replace_nl s) = length s"
  by (simp add: replace_nl_def)

lemma join_append:
  "join sep (xs @ ys) =
     (if xs = [] then join sep ys else if ys = [] then join sep xs
      else join sep xs @ sep @ join sep ys)"
proof (induction sep xs rule: join.induct)
  case (1 sep)
  show ?case by simp
next
  case (2 sep x)
  show ?case by (cases ys) simp_all
next
  case (3 sep x y ys')
  then show ?case by simp
qed

lemma list_insert_after_first:
  assumes "rs \<noteq> []"
  shows "list_insert (- int (length (r # rs)) + 1) x (pre @ r # rs) = pre @ r # x # rs"
proof -
  have neg: "- int (length (r # rs)) + 1 < 0" using assms by (cases rs) simp_all
  have pos: "nat (max (- int (length (r # rs)) + 1 + int (length (pre @ r # rs))) 0) =
             Suc (length pre)"
    by (simp add: max_def)
  have "list_insert (- int (length (r # rs)) + 1) x (pre @ r # rs) =
        take (Suc (length pre)) (pre @ r # rs) @ [x] @ drop (Suc (length pre)) (pre @ r # rs)"
    unfolding list_insert_def Let_def using neg by (simp only: if_True pos)
  then show ?thesis by simp
qed

section \<open>Properties of the classifier\<close>

lemma numbered_heading: "numbered name i \<Longrightarrow> contains name ''heading''"
  unfolding numbered_def
  using contains_prefix [of name "''heading''" "'' '' @ digit_str i"]
    contains_prefix [of name "''heading''" "digit_str i"]
  by auto

lemma heading_loop_None:
  "heading_loop xs name = None \<longleftrightarrow> (\<forall>i \<in> set xs. \<not> numbered name i)"
  by (induction xs) (auto simp: numbered_def)

lemma heading_loop_first:
  "numbered name n \<Longrightarrow> \<forall>i \<in> set xs. \<not> numbered name i \<Longrightarrow>
   heading_loop (xs @ n # ys) name = Some (min n 6)"
  by (induction xs) (auto simp: numbered_def)

lemma range_split:
  assumes "1 \<le> n" "n \<le> 9"
  shows "[1..<10] = [1..<n] @ n # [Suc n..<10]"
proof -
  have "[1..<n + (10 - n)] = [1..<n] @ [n..<n + (10 - n)]"
    using assms(1) by (rule upt_add_eq_append)
  moreover have "n + (10 - n) = 10" using assms(2) by simp
  ultimately have "[1..<10] = [1..<n] @ [n..<10]" by simp
  moreover have "[n..<10] = n # [Suc n..<10]"
    using assms by (simp add: upt_conv_Cons)
  ultimately show ?thesis by simp
qed

lemma get_style_name_labelled:
  "get_style_name (labelled l t) =
     (if contains (lower l) ''heading'' \<or> startswith (lower l) ''title''
      then Some (lower l) else Some ''normal'')"
  by (simp add: get_style_name_def labelled_def)

lemma heading_level_normal: "heading_level (Some ''normal'') = 0"
  by code_simp

lemma heading_level_lower: "heading_level (Some (lower l)) = heading_level (Some l)"
  by (simp add: heading_level_def lower_idem lower_Nil_iff)

lemma unnumbered_level:
  assumes "\<not> contains (lower l) ''title''"
    and "\<forall>i \<in> set [1..<10]. \<not> numbered (lower l) i"
    and "contains (lower l) ''heading''"
  shows "heading_level (Some l) = 2 \<and> classify (labelled l t) = 2"
proof -
  have none: "heading_loop [1..<10] (lower l) = None"
    using assms(2) by (simp only: heading_loop_None)
  have "lower l \<noteq> []" using assms(3) by (rule contains_nonempty) simp
  then have ne: "l \<noteq> []" by (simp add: lower_Nil_iff)
  have hl: "heading_level (Some l) = 2"
    unfolding heading_level_def using ne assms(1) assms(3) none by (simp add: Let_def)
  have cl: "classify (labelled l t) = 2"
    unfolding classify_def get_style_name_labelled
    using assms(3) hl by (simp add: heading_level_lower)
  show ?thesis using hl cl by (rule conjI)
qed

section \<open>The loops of the renderer\<close>

lemma row_loop_eq: "row_loop tbl rows = rows @ map row_line tbl"
  by (induction tbl arbitrary: rows) (simp_all add: row_line_def)

lemma table_step_eq: "table_step tbl lines = lines @ table_block tbl"
proof (cases tbl)
  case Nil
  then show ?thesis by (simp add: table_step_def table_block_def)
next
  case (Cons r rs)
  show ?thesis
  proof (cases rs)
    case Nil
    with Cons show ?thesis
      by (simp add: table_step_def table_block_def row_loop_eq)
  next
    case (Cons r' rs')
    then have ne: "map row_line rs \<noteq> []" by simp
    have ins: "list_insert (- int (length (row_line r # map row_line rs)) + 1) x
                 ((lines @ [[]]) @ row_line r # map row_line rs) =
               (lines @ [[]]) @ row_line r # x # map row_line rs" for x
      using ne by (rule list_insert_after_first)
    have len: "2 \<le> length (row_line r # map row_line rs)" using Cons by simp
    have "table_step (r # rs) lines =
          list_insert (- int (length (row_line r # map row_line rs)) + 1)
            (''|'' @ concat (replicate (length r) '' --- |''))
            ((lines @ [[]]) @ row_line r # map row_line rs) @ [[]]"
      unfolding table_step_def row_loop_eq Let_def using len by simp
    also have "\<dots> = lines @ table_block (r # rs)"
      unfolding ins using Cons by (simp add: table_block_def separator_def)
    finally show ?thesis using \<open>tbl = r # rs\<close> by simp
  qed
qed

lemma table_loop_eq: "table_loop ts lines = lines @ concat (map table_block ts)"
  by (induction ts arbitrary: lines) (simp_all add: table_step_eq)

lemma paragraph_to_md_eq:
  "paragraph_to_md p =
     (let t = strip (p_text p)
      in if t = [] then []
         else if 1 \<le> classify p then replicate (classify p) CHR ''#'' @ '' '' @ t
         else t)"
  by (simp add: paragraph_to_md_def classify_def Let_def)

lemma para_step_eq:
  "(if paragraph_to_md p \<noteq> [] then lines @ [paragraph_to_md p] else lines) = lines @ para_lines p"
  by (simp add: paragraph_to_md_eq para_lines_def Let_def)

lemma para_loop_eq: "para_loop ps lines = lines @ concat (map para_lines ps)"
proof (induction ps arbitrary: lines)
  case Nil
  show ?case by simp
next
  case (Cons p ps)
  have "para_loop (p # ps) lines =
        para_loop ps (if paragraph_to_md p \<noteq> [] then lines @ [paragraph_to_md p] else lines)"
    by (simp add: Let_def)
  also have "\<dots> = para_loop ps (lines @ para_lines p)" by (simp only: para_step_eq)
  also have "\<dots> = (lines @ para_lines p) @ concat (map para_lines ps)" by (rule Cons.IH)
  finally show ?case by simp
qed

lemma docx_to_md_eq:
  "docx_to_md doc =
     join [CHR 0x0A, CHR 0x0A]
       (concat (map para_lines (paragraphs doc)) @ concat (map table_block (tables doc)))"
  by (simp add: docx_to_md_def table_loop_eq para_loop_eq)

section \<open>The claims\<close>

subsection \<open>C1: labels that contain \<^verbatim>\<open>title\<close>\<close>

text \<open>
  Claim C1, as the code has it. The heading-level mapping alone gives level 1 to every
  label whose lower-case form contains \<^verbatim>\<open>title\<close>, whatever numbered heading the label
  also names. The classifier of a paragraph first extracts the style name, and the
  extraction keeps the name only when it starts with \<^verbatim>\<open>title\<close> or contains
  \<^verbatim>\<open>heading\<close>: for these labels the classifier gives level 1, and for every other label
  that contains \<^verbatim>\<open>title\<close> the name becomes \<^verbatim>\<open>normal\<close> and the level is 0.
\<close>

theorem title_level:
  assumes "contains (lower l) ''title''"
  shows "heading_level (Some l) = 1 \<and>
         classify (labelled l t) =
           (if startswith (lower l) ''title'' \<or> contains (lower l) ''heading'' then 1 else 0)"
proof -
  from assms have "lower l \<noteq> []" by (rule contains_nonempty) simp
  then have ne: "l \<noteq> []" by (simp add: lower_Nil_iff)
  have hl: "heading_level (Some l) = 1"
    unfolding heading_level_def using ne assms by (simp add: Let_def)
  have cl: "classify (labelled l t) =
           (if startswith (lower l) ''title'' \<or> contains (lower l) ''heading'' then 1 else 0)"
    unfolding classify_def get_style_name_labelled
    using hl by (simp add: heading_level_lower heading_level_normal disj_commute)
  show ?thesis using hl cl by (rule conjI)
qed

theorem title_level_witness:
  "contains (lower ''Heading 3 Title'') ''title'' \<and>
   heading_level (Some ''Heading 3 Title'') = 1 \<and>
   classify (labelled ''Heading 3 Title'' []) = 1"
proof -
  have h: "contains (lower ''Heading 3 Title'') ''title''" by code_simp
  have g: "contains (lower ''Heading 3 Title'') ''heading''" by code_simp
  show ?thesis using h g title_level [OF h, of "[]"] by simp
qed

text \<open>
  Claim C1 as stated fails: the label \<^verbatim>\<open>Subtitle\<close> contains \<^verbatim>\<open>title\<close>, and the
  classifier gives its paragraph level 0.
\<close>

theorem title_level_counterexample:
  "contains (lower ''Subtitle'') ''title'' \<and> classify (labelled ''Subtitle'' []) = 0"
  by code_simp

subsection \<open>C3: numbered headings\<close>

text \<open>
  Claim C3, as the code has it. Let the lower-case form of a label hold no \<^verbatim>\<open>title\<close>, and
  let \<open>n\<close> be the least number from 1 to 9 for which it holds \<^verbatim>\<open>heading n\<close> (one space)
  or \<^verbatim>\<open>headingn\<close> (no space). Then the mapping and the classifier both give the level
  \<open>min n 6\<close>. No other spacing is recognised: a label whose lower-case form holds
  \<^verbatim>\<open>heading\<close>, no \<^verbatim>\<open>title\<close> and, for every number from 1 to 9, neither of the two
  spellings, has level 2 under the mapping and under the classifier.
\<close>

theorem numbered_level:
  "(1 \<le> n \<and> n \<le> 9 \<and> numbered (lower l) n \<and>
    (\<forall>m \<in> set [1..<n]. \<not> numbered (lower l) m) \<and>
    \<not> contains (lower l) ''title'' \<longrightarrow>
      heading_level (Some l) = min n 6 \<and> classify (labelled l t) = min n 6) \<and>
   (contains (lower k) ''heading'' \<and> \<not> contains (lower k) ''title'' \<and>
    (\<forall>i \<in> set [1..<10]. \<not> numbered (lower k) i) \<longrightarrow>
      heading_level (Some k) = 2 \<and> classify (labelled k t) = 2)"
proof (intro conjI impI)
  assume asm: "1 \<le> n \<and> n \<le> 9 \<and> numbered (lower l) n \<and>
    (\<forall>m \<in> set [1..<n]. \<not> numbered (lower l) m) \<and> \<not> contains (lower l) ''title''"
  then have n1: "1 \<le> n" and n9: "n \<le> 9" and num: "numbered (lower l) n"
    and least: "\<forall>m \<in> set [1..<n]. \<not> numbered (lower l) m"
    and nt: "\<not> contains (lower l) ''title''"
    by blast+
  have hd: "contains (lower l) ''heading''"
    using num by (rule numbered_heading)
  then have "lower l \<noteq> []" by (rule contains_nonempty) simp
  then have ne: "l \<noteq> []" by (simp add: lower_Nil_iff)
  have "heading_loop ([1..<n] @ n # [Suc n..<10]) (lower l) = Some (min n 6)"
    using num least by (rule heading_loop_first)
  then have lp: "heading_loop [1..<10] (lower l) = Some (min n 6)"
    using range_split [OF n1 n9] by simp
  show hl: "heading_level (Some l) = min n 6"
    unfolding heading_level_def using ne nt lp by (simp add: Let_def)
  show "classify (labelled l t) = min n 6"
    unfolding classify_def get_style_name_labelled
    using hd hl by (simp add: heading_level_lower)
next
  assume asm: "contains (lower k) ''heading'' \<and> \<not> contains (lower k) ''title'' \<and>
    (\<forall>i \<in> set [1..<10]. \<not> numbered (lower k) i)"
  then have hd: "contains (lower k) ''heading''"
    and nt: "\<not> contains (lower k) ''title''"
    and nn: "\<forall>i \<in> set [1..<10]. \<not> numbered (lower k) i"
    by blast+
  show "heading_level (Some k) = 2"
    using unnumbered_level [OF nt nn hd, of "[]"] by (rule conjunct1)
  show "classify (labelled k t) = 2"
    using unnumbered_level [OF nt nn hd, of t] by (rule conjunct2)
qed

theorem numbered_level_witness:
  "numbered (lower ''HEADING3'') 3 \<and> \<not> contains (lower ''HEADING3'') ''title'' \<and>
   classify (labelled ''HEADING3'' []) = 3 \<and>
   numbered (lower ''heading 9'') 9 \<and> \<not> contains (lower ''heading 9'') ''title'' \<and>
   classify (labelled ''heading 9'' []) = 6 \<and>
   contains (lower ''Heading  3'') ''heading'' \<and>
   \<not> contains (lower ''Heading  3'') ''title'' \<and>
   heading_loop [1..<10] (lower ''Heading  3'') = None \<and>
   classify (labelled ''Heading  3'' []) = 2"
proof -
  have a: "(1::nat) \<le> 3" "(3::nat) \<le> 9" by simp_all
  have b: "numbered (lower ''HEADING3'') 3" by code_simp
  have c: "\<forall>m \<in> set [1..<3]. \<not> numbered (lower ''HEADING3'') m" by code_simp
  have d: "\<not> contains (lower ''HEADING3'') ''title''" by code_simp
  have a': "(1::nat) \<le> 9" "(9::nat) \<le> 9" by simp_all
  have b': "numbered (lower ''heading 9'') 9" by code_simp
  have c': "\<forall>m \<in> set [1..<9]. \<not> numbered (lower ''heading 9'') m" by code_simp
  have d': "\<not> contains (lower ''heading 9'') ''title''" by code_simp
  have e: "contains (lower ''Heading  3'') ''heading''" by code_simp
  have f: "\<not> contains (lower ''Heading  3'') ''title''" by code_simp
  have g: "\<forall>i \<in> set [1..<10]. \<not> numbered (lower ''Heading  3'') i" by code_simp
  have h: "heading_loop [1..<10] (lower ''Heading  3'') = None" by code_simp
  have "classify (labelled ''HEADING3'' []) = min 3 6"
    using numbered_level [where n = 3 and l = "''HEADING3''" and t = "[]" and k = "[]"] a b c d
    by blast
  then have r3: "classify (labelled ''HEADING3'' []) = 3" by simp
  have "classify (labelled ''heading 9'' []) = min 9 6"
    using numbered_level [where n = 9 and l = "''heading 9''" and t = "[]" and k = "[]"]
      a' b' c' d'
    by blast
  then have r9: "classify (labelled ''heading 9'' []) = 6" by simp
  have r2: "classify (labelled ''Heading  3'' []) = 2"
    using numbered_level [where n = 0 and l = "[]" and t = "[]" and k = "''Heading  3''"] e f g
    by blast
  show ?thesis using b d r3 b' d' r9 e f h r2 by blast
qed

text \<open>
  Claim C3 as stated fails in three ways. A label that holds \<^verbatim>\<open>heading 3\<close> and a smaller
  numbered heading gets the smaller level; a label that holds \<^verbatim>\<open>heading 3\<close> and
  \<^verbatim>\<open>title\<close> gets level 1; and with two spaces between \<^verbatim>\<open>heading\<close> and the digit the
  number is not seen and the level is 2.
\<close>

theorem numbered_level_counterexample:
  "numbered (lower ''Heading 3 Heading 1'') 3 \<and>
   classify (labelled ''Heading 3 Heading 1'' []) = 1 \<and>
   numbered (lower ''Heading 3 Title'') 3 \<and>
   classify (labelled ''Heading 3 Title'' []) = 1 \<and>
   classify (labelled ''Heading  3'' []) = 2"
  by code_simp

subsection \<open>C6: the remaining labels\<close>

text \<open>
  Claim C6. An absent style, a style without a name and an empty label have level 0. A
  label that matches neither the title rule nor the numbered-heading rule has level 2 when
  its lower-case form contains \<^verbatim>\<open>heading\<close>, and level 0 otherwise; this holds for the
  mapping alone and for the classifier of a paragraph.
\<close>

theorem other_level:
  assumes "\<not> contains (lower l) ''title''"
    and "\<forall>i \<in> set [1..<10]. \<not> numbered (lower l) i"
  shows "heading_level None = 0 \<and> heading_level (Some []) = 0 \<and>
         classify \<lparr>p_style = None, p_text = t\<rparr> = 0 \<and>
         classify \<lparr>p_style = Some \<lparr>s_name = None\<rparr>, p_text = t\<rparr> = 0 \<and>
         classify (labelled [] t) = 0 \<and>
         heading_level (Some l) = (if contains (lower l) ''heading'' then 2 else 0) \<and>
         classify (labelled l t) = (if contains (lower l) ''heading'' then 2 else 0)"
proof -
  have none: "heading_loop [1..<10] (lower l) = None"
    using assms(2) by (simp only: heading_loop_None)
  have e: "l = [] \<Longrightarrow> \<not> contains (lower l) ''heading''"
    by (simp add: lower_def)
  have hl: "heading_level (Some l) = (if contains (lower l) ''heading'' then 2 else 0)"
    unfolding heading_level_def using assms(1) none e by (simp add: Let_def)
  have nt: "\<not> startswith (lower l) ''title''"
    using assms(1) startswith_contains by blast
  have cl: "classify (labelled l t) = (if contains (lower l) ''heading'' then 2 else 0)"
    unfolding classify_def get_style_name_labelled
    using hl nt by (simp add: heading_level_lower heading_level_normal)
  have a1: "heading_level None = 0" by (simp add: heading_level_def)
  have a2: "heading_level (Some []) = 0" by (simp add: heading_level_def)
  have b: "classify \<lparr>p_style = None, p_text = t\<rparr> = 0"
    by (simp add: classify_def get_style_name_def heading_level_def)
  have c: "classify \<lparr>p_style = Some \<lparr>s_name = None\<rparr>, p_text = t\<rparr> = 0"
    by (simp add: classify_def get_style_name_def lower_def startswith_def heading_level_normal)
  have d: "classify (labelled [] t) = 0"
    unfolding classify_def get_style_name_labelled
    by (simp add: lower_def startswith_def heading_level_normal)
  show ?thesis using a1 a2 b c d hl cl by blast
qed

theorem other_level_witness:
  "\<not> contains (lower ''Heading'') ''title'' \<and>
   heading_loop [1..<10] (lower ''Heading'') = None \<and>
   classify (labelled ''Heading'' []) = 2 \<and>
   \<not> contains (lower ''Body Text'') ''title'' \<and>
   heading_loop [1..<10] (lower ''Body Text'') = None \<and>
   classify (labelled ''Body Text'' []) = 0"
proof -
  have a: "\<not> contains (lower ''Heading'') ''title''" by code_simp
  have b: "\<forall>i \<in> set [1..<10]. \<not> numbered (lower ''Heading'') i" by code_simp
  have c: "contains (lower ''Heading'') ''heading''" by code_simp
  have a': "\<not> contains (lower ''Body Text'') ''title''" by code_simp
  have b': "\<forall>i \<in> set [1..<10]. \<not> numbered (lower ''Body Text'') i" by code_simp
  have c': "\<not> contains (lower ''Body Text'') ''heading''" by code_simp
  have "classify (labelled ''Heading'' []) = 2"
    using other_level [OF a b, of "[]"] c by simp
  moreover have "classify (labelled ''Body Text'' []) = 0"
    using other_level [OF a' b', of "[]"] c' by simp
  moreover have "heading_loop [1..<10] (lower ''Heading'') = None"
    "heading_loop [1..<10] (lower ''Body Text'') = None" by code_simp+
  ultimately show ?thesis using a a' by blast
qed

subsection \<open>C5: the lines of the paragraphs\<close>

text \<open>
  Claim C5. The step of the paragraph loop trims the text of the paragraph; it appends
  nothing when the trimmed text is empty, the line of \<open>level\<close> marks \<^verbatim>\<open>#\<close>, one space
  and the trimmed text when the level is at least 1, and the trimmed text alone otherwise.
  A paragraph whose text is empty or whitespace only appends nothing, and the loop over all
  paragraphs appends the lines of each paragraph in order.
\<close>

theorem paragraph_lines:
  "para_loop [p] lines =
     (if strip (p_text p) = [] then lines
      else if 1 \<le> classify p
           then lines @ [replicate (classify p) CHR ''#'' @ '' '' @ strip (p_text p)]
           else lines @ [strip (p_text p)]) \<and>
   (list_all isspace (p_text p) \<longrightarrow> para_loop [p] lines = lines) \<and>
   para_loop ps lines = lines @ concat (map para_lines ps)"
proof (intro conjI impI)
  show one: "para_loop [p] lines =
     (if strip (p_text p) = [] then lines
      else if 1 \<le> classify p
           then lines @ [replicate (classify p) CHR ''#'' @ '' '' @ strip (p_text p)]
           else lines @ [strip (p_text p)])"
    unfolding para_loop_eq by (simp add: para_lines_def Let_def)
  show "para_loop [p] lines = lines" if "list_all isspace (p_text p)"
    unfolding one using strip_whitespace_only [OF that] by simp
  show "para_loop ps lines = lines @ concat (map para_lines ps)"
    by (rule para_loop_eq)
qed

theorem paragraph_lines_witness:
  "list_all isspace [CHR 0x09, CHR '' '', CHR 0x0A] \<and>
   para_loop [labelled ''Heading 2'' [CHR 0x09, CHR '' '', CHR 0x0A]] [''x''] = [''x''] \<and>
   para_loop [labelled ''Heading 2'' ''  Hi  ''] [''x''] = [''x'', ''## Hi''] \<and>
   para_loop [labelled ''Body'' ''  Hi  ''] [''x''] = [''x'', ''Hi'']"
proof -
  have ws: "list_all isspace (p_text (labelled ''Heading 2'' [CHR 0x09, CHR '' '', CHR 0x0A]))"
    by code_simp
  have a: "para_loop [labelled ''Heading 2'' [CHR 0x09, CHR '' '', CHR 0x0A]] [''x''] = [''x'']"
    using paragraph_lines [of "labelled ''Heading 2'' [CHR 0x09, CHR '' '', CHR 0x0A]" "[''x'']"] ws
    by blast
  have s: "strip (p_text (labelled ''Heading 2'' ''  Hi  '')) = ''Hi''"
    "strip (p_text (labelled ''Body'' ''  Hi  '')) = ''Hi''" by code_simp+
  have c: "classify (labelled ''Heading 2'' ''  Hi  '') = 2"
    "classify (labelled ''Body'' ''  Hi  '') = 0" by code_simp+
  have "para_loop [labelled ''Heading 2'' ''  Hi  ''] [''x''] =
     (if strip (p_text (labelled ''Heading 2'' ''  Hi  '')) = [] then [''x'']
      else if 1 \<le> classify (labelled ''Heading 2'' ''  Hi  '')
           then [''x''] @ [replicate (classify (labelled ''Heading 2'' ''  Hi  '')) CHR ''#'' @
                  '' '' @ strip (p_text (labelled ''Heading 2'' ''  Hi  ''))]
           else [''x''] @ [strip (p_text (labelled ''Heading 2'' ''  Hi  ''))])"
    by (rule paragraph_lines [THEN conjunct1])
  also have "\<dots> = [''x'', ''## Hi'']"
    unfolding s c by (simp add: numeral_2_eq_2)
  finally have b: "para_loop [labelled ''Heading 2'' ''  Hi  ''] [''x''] = [''x'', ''## Hi'']" .
  have "para_loop [labelled ''Body'' ''  Hi  ''] [''x''] =
     (if strip (p_text (labelled ''Body'' ''  Hi  '')) = [] then [''x'']
      else if 1 \<le> classify (labelled ''Body'' ''  Hi  '')
           then [''x''] @ [replicate (classify (labelled ''Body'' ''  Hi  '')) CHR ''#'' @
                  '' '' @ strip (p_text (labelled ''Body'' ''  Hi  ''))]
           else [''x''] @ [strip (p_text (labelled ''Body'' ''  Hi  ''))])"
    by (rule paragraph_lines [THEN conjunct1])
  also have "\<dots> = [''x'', ''Hi'']"
    unfolding s c by simp
  finally have d: "para_loop [labelled ''Body'' ''  Hi  ''] [''x''] = [''x'', ''Hi'']" .
  have "list_all isspace [CHR 0x09, CHR '' '', CHR 0x0A]" by code_simp
  then show ?thesis using a b d by blast
qed

subsection \<open>C2: the separator line\<close>

text \<open>
  Claim C2, as the code has it. For a table of two rows or more the renderer puts, right
  after the line of the first row, a separator line with as many columns as the first row
  has cells, whatever the other rows hold. A table of one row gets no separator line.
\<close>

theorem separator_after_first_row:
  "(2 \<le> length tbl \<longrightarrow>
      table_step tbl lines =
        lines @ [[], row_line (tbl ! 0),
                 ''|'' @ concat (replicate (length (tbl ! 0)) '' --- |'')]
              @ map row_line (tl tbl) @ [[]]) \<and>
   table_step [r] lines = lines @ [[], row_line r, []]"
proof (intro conjI impI)
  assume len: "2 \<le> length tbl"
  then obtain r1 r2 rs where tbl: "tbl = r1 # r2 # rs"
    by (cases tbl; cases "tl tbl") auto
  show "table_step tbl lines =
        lines @ [[], row_line (tbl ! 0),
                 ''|'' @ concat (replicate (length (tbl ! 0)) '' --- |'')]
              @ map row_line (tl tbl) @ [[]]"
    unfolding table_step_eq tbl by (simp add: table_block_def separator_def)
next
  show "table_step [r] lines = lines @ [[], row_line r, []]"
    unfolding table_step_eq by (simp add: table_block_def)
qed

theorem separator_after_first_row_witness:
  "2 \<le> length [[''a'', ''b''], [''c''], [''d'', ''e'', ''f'']] \<and>
   table_step [[''a'', ''b''], [''c''], [''d'', ''e'', ''f'']] [''x''] =
     [''x'', [], ''| a | b |'', ''| --- | --- |'', ''| c |'', ''| d | e | f |'', []]"
proof -
  have h: "2 \<le> length [[''a'', ''b''], [''c''], [''d'', ''e'', ''f'']]" by simp
  have r: "row_line [''a'', ''b''] = ''| a | b |''" "row_line [''c''] = ''| c |''"
    "row_line [''d'', ''e'', ''f''] = ''| d | e | f |''"
    by code_simp+
  have "table_step [[''a'', ''b''], [''c''], [''d'', ''e'', ''f'']] [''x''] =
     [''x'', [], ''| a | b |'', ''| --- | --- |'', ''| c |'', ''| d | e | f |'', []]"
    using separator_after_first_row
      [of "[[''a'', ''b''], [''c''], [''d'', ''e'', ''f'']]" "[''x'']"] h
    by (simp add: r numeral_2_eq_2)
  then show ?thesis using h by blast
qed

text \<open>
  Claim C2 as stated fails: a table with one row, of one cell, gives its row line between
  two blank entries and no separator line.
\<close>

theorem separator_after_first_row_counterexample:
  "1 \<le> length [[''a'']] \<and> table_step [[''a'']] [] = [[], ''| a |'', []]"
  by code_simp

subsection \<open>C4: a table of two rows and three columns\<close>

text \<open>
  Claim C4. A table of two rows with three cells each appends a blank entry, the header
  row line, one separator line of three columns, the data row line and a blank entry, and
  nothing else. In the output of a document that holds this table only, each of the three
  lines stands between blank lines.
\<close>

theorem two_by_three_table:
  "table_step [[a, b, c], [d, e, f]] lines =
     lines @ [[], row_line [a, b, c], ''| --- | --- | --- |'', row_line [d, e, f], []] \<and>
   docx_to_md \<lparr>paragraphs = [], tables = [[[a, b, c], [d, e, f]]]\<rparr> =
     [CHR 0x0A, CHR 0x0A] @ row_line [a, b, c] @
     [CHR 0x0A, CHR 0x0A] @ ''| --- | --- | --- |'' @
     [CHR 0x0A, CHR 0x0A] @ row_line [d, e, f] @
     [CHR 0x0A, CHR 0x0A] \<and>
   row_line [a, b, c] =
     ''| '' @ replace_nl (strip a) @ '' | '' @ replace_nl (strip b) @ '' | '' @
     replace_nl (strip c) @ '' |''"
proof (intro conjI)
  have blk: "table_block [[a, b, c], [d, e, f]] =
     [[], row_line [a, b, c], ''| --- | --- | --- |'', row_line [d, e, f], []]"
    by (simp add: table_block_def separator_def numeral_3_eq_3)
  show "table_step [[a, b, c], [d, e, f]] lines =
     lines @ [[], row_line [a, b, c], ''| --- | --- | --- |'', row_line [d, e, f], []]"
    unfolding table_step_eq blk ..
  show "docx_to_md \<lparr>paragraphs = [], tables = [[[a, b, c], [d, e, f]]]\<rparr> =
     [CHR 0x0A, CHR 0x0A] @ row_line [a, b, c] @
     [CHR 0x0A, CHR 0x0A] @ ''| --- | --- | --- |'' @
     [CHR 0x0A, CHR 0x0A] @ row_line [d, e, f] @
     [CHR 0x0A, CHR 0x0A]"
    unfolding docx_to_md_eq by (simp add: blk)
  show "row_line [a, b, c] =
     ''| '' @ replace_nl (strip a) @ '' | '' @ replace_nl (strip b) @ '' | '' @
     replace_nl (strip c) @ '' |''"
    by (simp add: row_line_def)
qed

subsection \<open>C7: the order of the output\<close>

text \<open>
  Claim C7. The output is the lines of all paragraphs, in order, followed by the blocks of
  all tables, in order, joined with a blank line (two line feeds) between any two units;
  when both parts are present, the output is the paragraph part, a blank line, and the
  table part.
\<close>

theorem output_order:
  "docx_to_md doc =
     join [CHR 0x0A, CHR 0x0A]
       (concat (map para_lines (paragraphs doc)) @ concat (map table_block (tables doc))) \<and>
   docx_to_md doc =
     (if concat (map para_lines (paragraphs doc)) = []
      then join [CHR 0x0A, CHR 0x0A] (concat (map table_block (tables doc)))
      else if concat (map table_block (tables doc)) = []
      then join [CHR 0x0A, CHR 0x0A] (concat (map para_lines (paragraphs doc)))
      else join [CHR 0x0A, CHR 0x0A] (concat (map para_lines (paragraphs doc))) @
           [CHR 0x0A, CHR 0x0A] @
           join [CHR 0x0A, CHR 0x0A] (concat (map table_block (tables doc))))"
  unfolding docx_to_md_eq by (simp only: join_append simp_thms)

subsection \<open>C8: tables without rows\<close>

text \<open>
  Claim C8. A table with no rows leaves the list of lines as it was: it adds no row line
  and no blank entry, and removing it from the document does not change the output.
\<close>

theorem empty_table_no_output:
  "table_step [] lines = lines \<and>
   table_loop (ts1 @ [] # ts2) lines = table_loop (ts1 @ ts2) lines \<and>
   docx_to_md \<lparr>paragraphs = ps, tables = ts1 @ [] # ts2\<rparr> =
   docx_to_md \<lparr>paragraphs = ps, tables = ts1 @ ts2\<rparr>"
  by (simp add: docx_to_md_eq table_loop_eq table_step_eq table_block_def)

subsection \<open>C9: the text of a cell\<close>

text \<open>
  Claim C9. Each row becomes one line: the texts of its cells joined with the column
  delimiter, with a delimiter at both ends. The text of a cell in that line is the original
  text without a whitespace prefix and a whitespace suffix, cut so that it neither starts
  nor ends with whitespace, in which every line feed has become one space and every other
  character stays in its place.
\<close>

theorem cell_text_kept:
  "row_loop [r] rows = rows @ [''| '' @ join '' | '' (map (\<lambda>c. replace_nl (strip c)) r) @ '' |''] \<and>
   row_loop tbl [] = map row_line tbl \<and>
   (\<exists>pre suf. c = pre @ strip c @ suf \<and> list_all isspace pre \<and> list_all isspace suf) \<and>
   (strip c \<noteq> [] \<longrightarrow> \<not> isspace (hd (strip c)) \<and> \<not> isspace (last (strip c))) \<and>
   length (replace_nl (strip c)) = length (strip c) \<and>
   (\<forall>i < length (strip c).
      replace_nl (strip c) ! i = (if strip c ! i = CHR 0x0A then CHR '' '' else strip c ! i))"
proof (intro conjI impI allI)
  show "row_loop [r] rows =
        rows @ [''| '' @ join '' | '' (map (\<lambda>c. replace_nl (strip c)) r) @ '' |'']"
    by simp
  show "row_loop tbl [] = map row_line tbl" by (simp add: row_loop_eq)
  show "\<exists>pre suf. c = pre @ strip c @ suf \<and> list_all isspace pre \<and> list_all isspace suf"
    by (rule strip_decomp)
  show "\<not> isspace (hd (strip c))" if "strip c \<noteq> []" using that by (rule strip_hd)
  show "\<not> isspace (last (strip c))" if "strip c \<noteq> []" using that by (rule strip_last)
  show "length (replace_nl (strip c)) = length (strip c)" by (rule replace_nl_length)
  show "replace_nl (strip c) ! i = (if strip c ! i = CHR 0x0A then CHR '' '' else strip c ! i)"
    if "i < length (strip c)" for i using that by (rule replace_nl_nth)
qed

theorem cell_text_kept_witness:
  "strip [CHR '' '', CHR ''a'', CHR 0x0A, CHR ''b'', CHR 0x09] = [CHR ''a'', CHR 0x0A, CHR ''b''] \<and>
   \<not> isspace (hd (strip [CHR '' '', CHR ''a'', CHR 0x0A, CHR ''b'', CHR 0x09])) \<and>
   \<not> isspace (last (strip [CHR '' '', CHR ''a'', CHR 0x0A, CHR ''b'', CHR 0x09])) \<and>
   replace_nl (strip [CHR '' '', CHR ''a'', CHR 0x0A, CHR ''b'', CHR 0x09]) ! 1 = CHR '' '' \<and>
   row_loop [[[CHR '' '', CHR ''a'', CHR 0x0A, CHR ''b'', CHR 0x09], ''c'']] [] = [''| a b | c |'']"
proof -
  let ?c = "[CHR '' '', CHR ''a'', CHR 0x0A, CHR ''b'', CHR 0x09]"
  have s: "strip ?c = [CHR ''a'', CHR 0x0A, CHR ''b'']" by code_simp
  have r: "replace_nl [CHR ''a'', CHR 0x0A, CHR ''b''] = ''a b''"
    "replace_nl (strip ''c'') = ''c''" by code_simp+
  note k = cell_text_kept [of "[?c, ''c'']" "[]" "[]" ?c]
  have e: "\<not> isspace (hd (strip ?c)) \<and> \<not> isspace (last (strip ?c))"
    using k s by simp
  have n: "replace_nl (strip ?c) ! 1 = CHR '' ''"
    using k s by simp
  have l: "row_loop [[?c, ''c'']] [] = [''| a b | c |'']"
    using k by (simp add: s r)
  show ?thesis using s e n l by blast
qed

subsection \<open>C10: documents without content\<close>

text \<open>
  Claim C10. When the text of every paragraph is empty or whitespace only and every table
  has no rows, the output is the empty string.
\<close>

theorem blank_document:
  "\<forall>p \<in> set (paragraphs doc). list_all isspace (p_text p) \<Longrightarrow>
   \<forall>t \<in> set (tables doc). t = [] \<Longrightarrow>
   docx_to_md doc = []"
proof -
  assume ps: "\<forall>p \<in> set (paragraphs doc). list_all isspace (p_text p)"
    and ts: "\<forall>t \<in> set (tables doc). t = []"
  have "para_lines p = []" if "p \<in> set (paragraphs doc)" for p
    using ps that strip_whitespace_only by (simp add: para_lines_def)
  then have a: "concat (map para_lines (paragraphs doc)) = []" by simp
  have "table_block t = []" if "t \<in> set (tables doc)" for t
    using ts that by (auto simp: table_block_def)
  then have b: "concat (map table_block (tables doc)) = []" by simp
  show ?thesis unfolding docx_to_md_eq a b by simp
qed

theorem blank_document_witness:
  "docx_to_md \<lparr>paragraphs = [], tables = []\<rparr> = [] \<and>
   docx_to_md \<lparr>paragraphs = [labelled ''Title'' [], labelled ''Heading 1'' [CHR '' '', CHR 0x0A]],
               tables = [[], []]\<rparr> = []"
proof -
  have "docx_to_md \<lparr>paragraphs = [], tables = []\<rparr> = []"
    using blank_document [of "\<lparr>paragraphs = [], tables = []\<rparr>"] by simp
  moreover have "docx_to_md
      \<lparr>paragraphs = [labelled ''Title'' [], labelled ''Heading 1'' [CHR '' '', CHR 0x0A]],
       tables = [[], []]\<rparr> = []"
    using blank_document
      [of "\<lparr>paragraphs = [labelled ''Title'' [], labelled ''Heading 1'' [CHR '' '', CHR 0x0A]],
            tables = [[], []]\<rparr>"]
    by (simp add: labelled_def isspace_def)
  ultimately show ?thesis by blast
qed

end
